theory Spec2Isabelle
  imports Main
begin

unbundle bit_operations_syntax

section \<open>Strings, bytes and the pieces of the Python runtime the program relies on\<close>

text \<open>
  A Python \<^verbatim>\<open>str\<close> is a sequence of Unicode code points and a \<^verbatim>\<open>bytes\<close> object a
  sequence of numbers below 256; both are lists of naturals here.  \<open>str\<close> turns an ASCII
  literal into a Python string.
\<close>

type_synonym pystr = "nat list"
type_synonym bytes = "nat list"

definition str :: "string \<Rightarrow> pystr" where
  "str s = map of_char s"

text \<open>
  \<^verbatim>\<open>str.isspace\<close> on one code point; the regular expression class \<^verbatim>\<open>\s\<close>,
  \<^verbatim>\<open>str.split()\<close>, \<^verbatim>\<open>str.strip()\<close> and \<^verbatim>\<open>int()\<close> all use this set.  It is the
  complete table of Unicode 14.
\<close>

definition py_isspace :: "nat \<Rightarrow> bool" where
  "py_isspace c \<longleftrightarrow>
     (0x9 \<le> c \<and> c \<le> 0xD) \<or> (0x1C \<le> c \<and> c \<le> 0x20) \<or> c = 0x85 \<or> c = 0xA0 \<or>
     c = 0x1680 \<or> (0x2000 \<le> c \<and> c \<le> 0x200A) \<or> c = 0x2028 \<or> c = 0x2029 \<or>
     c = 0x202F \<or> c = 0x205F \<or> c = 0x3000"

definition py_strip :: "pystr \<Rightarrow> pystr" where
  "py_strip s = rev (dropWhile py_isspace (rev (dropWhile py_isspace s)))"

text \<open>
  \<^verbatim>\<open>int(s)\<close> for a string: surrounding white space is dropped, one sign is allowed, and
  the digits may be grouped by single underscores.  \<open>None\<close> stands for \<^verbatim>\<open>ValueError\<close>.
  Only the ASCII digits are taken as decimal digits; they are the only ones below U+0660.
\<close>

definition py_isdigit :: "nat \<Rightarrow> bool" where
  "py_isdigit c \<longleftrightarrow> 0x30 \<le> c \<and> c \<le> 0x39"

fun parse_digits :: "bool \<Rightarrow> int \<Rightarrow> pystr \<Rightarrow> int option" where
  "parse_digits prev acc [] = (if prev then Some acc else None)"
| "parse_digits prev acc (c # cs) =
     (if py_isdigit c then parse_digits True (10 * acc + int (c - 0x30)) cs
      else if c = 0x5F \<and> prev \<and> cs \<noteq> [] then parse_digits False acc cs
      else None)"

definition py_int :: "pystr \<Rightarrow> int option" where
  "py_int s =
     (case py_strip s of
        [] \<Rightarrow> None
      | c # cs \<Rightarrow>
          if c = 0x2D then map_option uminus (parse_digits False 0 cs)
          else if c = 0x2B then parse_digits False 0 cs
          else parse_digits False 0 (c # cs))"

text \<open>The decimal rendering of a non-negative integer, as an f-string produces it.\<close>

function str_of_nat :: "nat \<Rightarrow> pystr" where
  "str_of_nat n = (if n < 10 then [0x30 + n] else str_of_nat (n div 10) @ [0x30 + n mod 10])"
  by pat_completeness auto
termination
  by (relation "measure id") auto

declare str_of_nat.simps [simp del]

text \<open>\<^verbatim>\<open>s.split(sep)[-1]\<close>: what follows the last occurrence of \<open>sep\<close>.\<close>

definition after_last :: "nat \<Rightarrow> pystr \<Rightarrow> pystr" where
  "after_last sep s = rev (takeWhile (\<lambda>c. c \<noteq> sep) (rev s))"

section \<open>The resumable transfer: \<^verbatim>\<open>download_file\<close>\<close>

text \<open>
  The network and the disk are outside the program.  A server answers the \<open>n\<close>-th request
  of a run, made for a URL with an optional \<^verbatim>\<open>Range\<close> header, either by refusing
  (\<^verbatim>\<open>requests.get\<close> raises) or with a response: status code, the two headers the
  program reads, the chunks \<^verbatim>\<open>iter_content\<close> delivers, and whether the stream breaks
  after them.  The disk is a map from paths to the contents of regular files; disk
  operations themselves do not fail.  The progress bar only observes and is left out.
\<close>

datatype exn =
    ConnectionError
  | HTTPError nat
  | ValueError
  | ChunkedEncodingError
  | FileNotFoundError
  | UnicodeEncodeError
  | IsADirectoryError

record response =
  status_code :: nat
  content_range :: "pystr option"
  content_length :: "pystr option"
  chunks :: "bytes list"
  stream_error :: bool

datatype reply = Refused | Reply response

type_synonym server = "pystr \<Rightarrow> nat \<Rightarrow> pystr option \<Rightarrow> reply"

record world =
  files :: "pystr \<rightharpoonup> bytes"
  slept :: "nat list"
  requests :: "(pystr \<times> pystr option) list"

datatype mode = WB | AB

datatype outcome = Downloaded | SizeMismatch | Failed exn

text \<open>Lines 264-271: the resume offset, the \<^verbatim>\<open>Range\<close> header and the open mode.\<close>

definition range_header :: "nat \<Rightarrow> pystr" where
  "range_header resume_pos = str ''bytes='' @ str_of_nat resume_pos @ str ''-''"

definition probe :: "(pystr \<rightharpoonup> bytes) \<Rightarrow> pystr \<Rightarrow> nat \<times> pystr option \<times> mode" where
  "probe fs part_path =
     (case fs part_path of
        None \<Rightarrow> (0, None, WB)
      | Some b \<Rightarrow> (length b, Some (range_header (length b)), AB))"

text \<open>\<^verbatim>\<open>int(r.headers.get('content-length', 0))\<close>.\<close>

definition content_length_int :: "response \<Rightarrow> int option" where
  "content_length_int r = (case content_length r of None \<Rightarrow> Some 0 | Some s \<Rightarrow> py_int s)"

text \<open>\<^verbatim>\<open>r.headers.get('Content-Range', '')\<close>.\<close>

definition content_range_str :: "response \<Rightarrow> pystr" where
  "content_range_str r = (case content_range r of None \<Rightarrow> [] | Some s \<Rightarrow> s)"

text \<open>
  Lines 275-294: the total size, and the offset and mode after looking at the status.
  \<^verbatim>\<open>raise_for_status\<close> raises for the codes 400 to 599 only.
\<close>

definition interpret_response :: "nat \<Rightarrow> mode \<Rightarrow> response \<Rightarrow> exn + (int \<times> nat \<times> mode)" where
  "interpret_response resume_pos mode r =
     (if status_code r = 206 then
        (if 0x2F \<in> set (content_range_str r) then
           (case py_int (after_last 0x2F (content_range_str r)) of
              None \<Rightarrow> Inl ValueError
            | Some total_size \<Rightarrow> Inr (total_size, resume_pos, mode))
         else
           (case content_length_int r of
              None \<Rightarrow> Inl ValueError
            | Some n \<Rightarrow> Inr (int resume_pos + n, resume_pos, mode)))
      else if status_code r = 200 then
        (case content_length_int r of
           None \<Rightarrow> Inl ValueError
         | Some total_size \<Rightarrow>
             if resume_pos > 0 then Inr (total_size, 0, WB)
             else Inr (total_size, resume_pos, mode))
      else if 400 \<le> status_code r \<and> status_code r < 600 then Inl (HTTPError (status_code r))
      else Inr (0, resume_pos, mode))"

text \<open>
  Lines 302-314: \<^verbatim>\<open>open(part_path, mode)\<close> and the writes.  \<^verbatim>\<open>'wb'\<close> starts from an
  empty file, \<^verbatim>\<open>'ab'\<close> from what is there; every delivered chunk is written.
\<close>

definition stream :: "(pystr \<rightharpoonup> bytes) \<Rightarrow> pystr \<Rightarrow> mode \<Rightarrow> response \<Rightarrow> (pystr \<rightharpoonup> bytes)" where
  "stream fs part_path mode r =
     (let old = (case mode of
                   WB \<Rightarrow> []
                 | AB \<Rightarrow> (case fs part_path of None \<Rightarrow> [] | Some b \<Rightarrow> b))
      in fs(part_path \<mapsto> old @ concat (chunks r)))"

text \<open>Lines 264-314, the body of the \<^verbatim>\<open>with requests.get(...)\<close> block.\<close>

definition fetch :: "server \<Rightarrow> pystr \<Rightarrow> pystr \<Rightarrow> world \<Rightarrow> (exn + int) \<times> world" where
  "fetch srv url part_path w =
     (case probe (files w) part_path of (resume_pos, hdr, mode) \<Rightarrow>
        (let w1 = w\<lparr>requests := requests w @ [(url, hdr)]\<rparr> in
         case srv url (length (requests w)) hdr of
           Refused \<Rightarrow> (Inl ConnectionError, w1)
         | Reply r \<Rightarrow>
             (case interpret_response resume_pos mode r of
                Inl e \<Rightarrow> (Inl e, w1)
              | Inr (total_size, resume_pos', mode') \<Rightarrow>
                  (let w2 = w1\<lparr>files := stream (files w1) part_path mode' r\<rparr> in
                   if stream_error r then (Inl ChunkedEncodingError, w2)
                   else (Inr total_size, w2)))))"

text \<open>
  Line 320, \<^verbatim>\<open>check_size > 0 and actual_size < check_size * 0.99\<close>, negated.  The product
  is taken exactly; the double-precision product decides the comparison with an integer
  the same way for every size below \<open>2 ^ 46\<close>.
\<close>

definition size_ok :: "int \<Rightarrow> int \<Rightarrow> bool" where
  "size_ok actual_size check_size \<longleftrightarrow> \<not> (check_size > 0 \<and> 100 * actual_size < 99 * check_size)"

definition part_of :: "pystr \<Rightarrow> pystr" where
  "part_of output_path = output_path @ str ''.part''"

text \<open>One pass through the body of the retry loop, lines 262-328.\<close>

definition attempt_once :: "server \<Rightarrow> pystr \<Rightarrow> pystr \<Rightarrow> int \<Rightarrow> world \<Rightarrow> outcome \<times> world" where
  "attempt_once srv url output_path expected_size w =
     (case fetch srv url (part_of output_path) w of
        (Inl e, w') \<Rightarrow> (Failed e, w')
      | (Inr total_size, w') \<Rightarrow>
          (case files w' (part_of output_path) of
             None \<Rightarrow> (Failed FileNotFoundError, w')
           | Some b \<Rightarrow>
               (let actual_size = int (length b);
                    check_size = (if expected_size > 0 then expected_size else total_size)
                in if \<not> size_ok actual_size check_size then (SizeMismatch, w')
                   else (Downloaded,
                         w'\<lparr>files := (files w')(part_of output_path := None, output_path \<mapsto> b)\<rparr>))))"

text \<open>
  The loop \<^verbatim>\<open>for attempt in range(max_retries)\<close>.  A size mismatch takes \<^verbatim>\<open>continue\<close>;
  an exception reaches the handler, which sleeps unless the attempt was the last one.
\<close>

fun attempts :: "server \<Rightarrow> pystr \<Rightarrow> pystr \<Rightarrow> int \<Rightarrow> int \<Rightarrow> nat list \<Rightarrow> world \<Rightarrow> bool \<times> world" where
  "attempts srv url output_path expected_size max_retries [] w = (False, w)"
| "attempts srv url output_path expected_size max_retries (attempt # rest) w =
     (case attempt_once srv url output_path expected_size w of
        (Downloaded, w') \<Rightarrow> (True, w')
      | (SizeMismatch, w') \<Rightarrow> attempts srv url output_path expected_size max_retries rest w'
      | (Failed e, w') \<Rightarrow>
          attempts srv url output_path expected_size max_retries rest
            (if int attempt < max_retries - 1
             then w'\<lparr>slept := slept w' @ [2 ^ attempt * 5]\<rparr> else w'))"

definition download_file :: "server \<Rightarrow> pystr \<Rightarrow> pystr \<Rightarrow> int \<Rightarrow> int \<Rightarrow> world \<Rightarrow> bool \<times> world" where
  "download_file srv url output_path expected_size max_retries w =
     attempts srv url output_path expected_size max_retries [0..<nat max_retries] w"



text \<open>Concrete worlds and servers, used to run the model.\<close>

definition empty_world :: world where
  "empty_world = \<lparr>files = Map.empty, slept = [], requests = []\<rparr>"







definition silent_response :: response where
  "silent_response =
     \<lparr>status_code = 200, content_range = None, content_length = None,
      chunks = [], stream_error = False\<rparr>"

section \<open>The name sanitizer: \<^verbatim>\<open>sanitize_filename\<close>\<close>

text \<open>
  \<^verbatim>\<open>str.encode('utf-8')\<close>.  A surrogate (U+D800 to U+DFFF) cannot be encoded and raises
  \<^verbatim>\<open>UnicodeEncodeError\<close>, here \<open>None\<close>; numbers from \<open>0x110000\<close> on are no code points.
\<close>

definition utf8_char :: "nat \<Rightarrow> bytes option" where
  "utf8_char c =
     (if c < 0x80 then Some [c]
      else if c < 0x800 then Some [0xC0 + c div 64, 0x80 + c mod 64]
      else if 0xD800 \<le> c \<and> c \<le> 0xDFFF then None
      else if c < 0x10000 then
        Some [0xE0 + c div 4096, 0x80 + c div 64 mod 64, 0x80 + c mod 64]
      else if c < 0x110000 then
        Some [0xF0 + c div 262144, 0x80 + c div 4096 mod 64, 0x80 + c div 64 mod 64,
              0x80 + c mod 64]
      else None)"

fun utf8_encode :: "pystr \<Rightarrow> bytes option" where
  "utf8_encode [] = Some []"
| "utf8_encode (c # cs) =
     (case utf8_char c of
        None \<Rightarrow> None
      | Some b \<Rightarrow> (case utf8_encode cs of None \<Rightarrow> None | Some bs \<Rightarrow> Some (b @ bs)))"

text \<open>The test of line 136, \<^verbatim>\<open>(byte & 0xC0) == 0x80\<close>: a continuation byte.\<close>

definition is_cont :: "nat \<Rightarrow> bool" where
  "is_cont b \<longleftrightarrow> b AND 0xC0 = 0x80"

text \<open>
  \<^verbatim>\<open>bytes.decode('utf-8', errors='ignore')\<close>: a well-formed sequence gives its code
  point; a byte that starts no well-formed sequence is dropped and decoding goes on
  with the next byte.
\<close>

fun utf8_decode_ignore :: "bytes \<Rightarrow> pystr" where
  "utf8_decode_ignore [] = []"
| "utf8_decode_ignore (b # bs) =
     (if b < 0x80 then b # utf8_decode_ignore bs
      else if 0xC2 \<le> b \<and> b \<le> 0xDF then
        (case bs of
           b1 # r \<Rightarrow>
             if is_cont b1 then ((b - 0xC0) * 64 + (b1 - 0x80)) # utf8_decode_ignore r
             else utf8_decode_ignore bs
         | _ \<Rightarrow> utf8_decode_ignore bs)
      else if 0xE0 \<le> b \<and> b \<le> 0xEF then
        (case bs of
           b1 # b2 # r \<Rightarrow>
             if is_cont b1 \<and> is_cont b2 \<and> (b = 0xE0 \<longrightarrow> 0xA0 \<le> b1) \<and> (b = 0xED \<longrightarrow> b1 \<le> 0x9F)
             then ((b - 0xE0) * 4096 + (b1 - 0x80) * 64 + (b2 - 0x80)) # utf8_decode_ignore r
             else utf8_decode_ignore bs
         | _ \<Rightarrow> utf8_decode_ignore bs)
      else if 0xF0 \<le> b \<and> b \<le> 0xF4 then
        (case bs of
           b1 # b2 # b3 # r \<Rightarrow>
             if is_cont b1 \<and> is_cont b2 \<and> is_cont b3 \<and>
                (b = 0xF0 \<longrightarrow> 0x90 \<le> b1) \<and> (b = 0xF4 \<longrightarrow> b1 \<le> 0x8F)
             then ((b - 0xF0) * 262144 + (b1 - 0x80) * 4096 + (b2 - 0x80) * 64 + (b3 - 0x80))
                    # utf8_decode_ignore r
             else utf8_decode_ignore bs
         | _ \<Rightarrow> utf8_decode_ignore bs)
      else utf8_decode_ignore bs)"

text \<open>The slice \<^verbatim>\<open>xs[:n]\<close>; a negative \<open>n\<close> counts from the end.\<close>

definition slice_to :: "'a list \<Rightarrow> int \<Rightarrow> 'a list" where
  "slice_to xs n = (if n < 0 then take (nat (int (length xs) + n)) xs else take (nat n) xs)"

text \<open>The loop of lines 136-137: drop continuation bytes from the end.\<close>

function strip_cont :: "bytes \<Rightarrow> bytes" where
  "strip_cont truncated =
     (if truncated \<noteq> [] \<and> is_cont (last truncated) then strip_cont (butlast truncated)
      else truncated)"
  by pat_completeness auto
termination
  by (relation "measure length") auto

declare strip_cont.simps [simp del]

text \<open>
  The characters the pattern of line 125 matches.  In \<^verbatim>\<open>[\/:*?"<>|]\<close> the backslash
  escapes the slash, so the class has eight members:
  \<^verbatim>\<open>/\<close>, \<^verbatim>\<open>:\<close>, \<^verbatim>\<open>*\<close>, \<^verbatim>\<open>?\<close>, the double quote, \<^verbatim>\<open><\<close>, \<^verbatim>\<open>>\<close> and \<^verbatim>\<open>|\<close>.
\<close>

definition invalid_chars :: "nat list" where
  "invalid_chars = [0x2F, 0x3A, 0x2A, 0x3F, 0x22, 0x3C, 0x3E, 0x7C]"

definition replace_invalid :: "pystr \<Rightarrow> pystr" where
  "replace_invalid title = map (\<lambda>c. if c \<in> set invalid_chars then 0x5F else c) title"

definition sanitize_filename :: "pystr \<Rightarrow> pystr \<Rightarrow> int \<Rightarrow> exn + pystr" where
  "sanitize_filename title extension max_bytes =
     (let filename = replace_invalid title in
      case utf8_encode extension of
        None \<Rightarrow> Inl UnicodeEncodeError
      | Some extension_bytes \<Rightarrow>
          (let available_bytes = max_bytes - int (length extension_bytes) in
           case utf8_encode filename of
             None \<Rightarrow> Inl UnicodeEncodeError
           | Some encoded \<Rightarrow>
               if int (length encoded) > available_bytes then
                 (let truncated = strip_cont (slice_to encoded (available_bytes - 3))
                  in Inr (utf8_decode_ignore truncated @ str ''...'' @ extension))
               else Inr (filename @ extension)))"

text \<open>The nine characters the specification lists: the eight above and the backslash.\<close>

definition listed_chars :: "nat list" where
  "listed_chars = 0x5C # invalid_chars"

text \<open>An extension of 238 characters, for running the sanitizer at the edge of its budget.\<close>

definition long_extension :: pystr where
  "long_extension = 0x2E # replicate 237 0x78"

text \<open>
  What truncation leaves of the encoding of \<open>cs\<close> within \<open>k\<close> bytes: the encoding of some
  leading characters, possibly followed by one lead byte of a cut character.
\<close>

definition cut_at :: "pystr \<Rightarrow> nat \<Rightarrow> bytes \<Rightarrow> bool" where
  "cut_at cs k t \<longleftrightarrow>
     (\<exists>n pb. utf8_encode (take n cs) = Some pb \<and> length pb \<le> k \<and>
        (t = pb \<or> (\<exists>h. 0x80 \<le> h \<and> t = pb @ [h])))"

section \<open>The title normalizer: \<^verbatim>\<open>normalize_title\<close>\<close>

text \<open>
  The character tables of the Python runtime (Unicode 14) for the blocks Basic Latin,
  Latin-1 Supplement and Latin Extended-A (code points below U+0180), the combining
  diacritical marks (U+0300 to U+036F) and General Punctuation (U+2000 to U+206F).
  Statements about the normalizer are made for strings over this repertoire; outside
  of it the tables below are not those of Python.
\<close>

definition in_repertoire :: "nat \<Rightarrow> bool" where
  "in_repertoire c \<longleftrightarrow> c < 0x180 \<or> (0x300 \<le> c \<and> c \<le> 0x36F) \<or> (0x2000 \<le> c \<and> c \<le> 0x206F)"

text \<open>\<^verbatim>\<open>str.isalnum\<close> on one code point; \<^verbatim>\<open>\w\<close> is this or the underscore.\<close>

definition py_isalnum :: "nat \<Rightarrow> bool" where
  "py_isalnum c \<longleftrightarrow>
     (0x30 \<le> c \<and> c \<le> 0x39) \<or> (0x41 \<le> c \<and> c \<le> 0x5A) \<or> (0x61 \<le> c \<and> c \<le> 0x7A) \<or>
     c = 0xAA \<or> c = 0xB2 \<or> c = 0xB3 \<or> c = 0xB5 \<or> c = 0xB9 \<or> c = 0xBA \<or>
     (0xBC \<le> c \<and> c \<le> 0xBE) \<or> (0xC0 \<le> c \<and> c \<le> 0xD6) \<or> (0xD8 \<le> c \<and> c \<le> 0xF6) \<or>
     (0xF8 \<le> c \<and> c \<le> 0x17F)"

definition is_word :: "nat \<Rightarrow> bool" where
  "is_word c \<longleftrightarrow> py_isalnum c \<or> c = 0x5F"

text \<open>
  \<^verbatim>\<open>str.lower\<close> on one code point.  U+0130, the capital I with a dot above, is the one
  character whose lower case has two code points: \<^verbatim>\<open>i\<close> and the combining dot U+0307.
\<close>

definition py_lower_char :: "nat \<Rightarrow> pystr" where
  "py_lower_char c =
     (if (0x41 \<le> c \<and> c \<le> 0x5A) \<or> (0xC0 \<le> c \<and> c \<le> 0xD6) \<or> (0xD8 \<le> c \<and> c \<le> 0xDE)
      then [c + 32]
      else if c = 0x130 then [0x69, 0x307]
      else if c = 0x178 then [0xFF]
      else if ((0x100 \<le> c \<and> c \<le> 0x12E) \<or> (0x132 \<le> c \<and> c \<le> 0x136) \<or>
               (0x14A \<le> c \<and> c \<le> 0x176)) \<and> even c
      then [c + 1]
      else if ((0x139 \<le> c \<and> c \<le> 0x147) \<or> (0x179 \<le> c \<and> c \<le> 0x17D)) \<and> odd c
      then [c + 1]
      else [c])"










text \<open>Line 175: only \<^verbatim>\<open>\w\<close>, \<^verbatim>\<open>\s\<close> and U+00C0 to U+017F stay.\<close>

definition kept_char :: "nat \<Rightarrow> bool" where
  "kept_char c \<longleftrightarrow> is_word c \<or> py_isspace c \<or> (0xC0 \<le> c \<and> c \<le> 0x17F)"

text \<open>\<^verbatim>\<open>str.split()\<close>: the maximal runs without white space.\<close>

function py_split :: "pystr \<Rightarrow> pystr list" where
  "py_split s =
     (case dropWhile py_isspace s of
        [] \<Rightarrow> []
      | c # cs \<Rightarrow>
          takeWhile (\<lambda>x. \<not> py_isspace x) (c # cs) #
          py_split (dropWhile (\<lambda>x. \<not> py_isspace x) cs))"
  by pat_completeness auto
termination
proof (relation "measure length")
  fix s :: pystr and c :: nat and cs :: pystr
  assume "dropWhile py_isspace s = c # cs"
  moreover have "length (dropWhile py_isspace s) \<le> length s"
    "length (dropWhile (\<lambda>x. \<not> py_isspace x) cs) \<le> length cs"
    by (rule length_dropWhile_le)+
  ultimately show "(dropWhile (\<lambda>x. \<not> py_isspace x) cs, s) \<in> measure length"
    by simp
qed simp

declare py_split.simps [simp del]



text \<open>
  A character of a normalized title other than the space: it passes line 175, is no
  white space and no underscore, and is its own lower case.
\<close>

definition stable_char :: "nat \<Rightarrow> bool" where
  "stable_char d \<longleftrightarrow> kept_char d \<and> \<not> py_isspace d \<and> d \<noteq> 0x5F \<and> py_lower_char d = [d]"

section \<open>The similarity matcher and the cleanup pass\<close>














section \<open>Reconciling the canonical set: \<^verbatim>\<open>download_releases\<close>\<close>

text \<open>
  An item of the feed as the program reads it: the text of its \<^verbatim>\<open>title\<close> tag and the
  \<^verbatim>\<open>url\<close> and \<^verbatim>\<open>length\<close> attributes of its \<^verbatim>\<open>enclosure\<close> tag, each of which may be
  missing.
\<close>

record enclosure =
  enc_url :: "pystr option"
  enc_length :: "pystr option"

record item =
  title_tag :: "pystr option"
  enclosure_tag :: "enclosure option"

record download =
  dl_title :: pystr
  dl_url :: pystr
  dl_filename :: pystr
  dl_output_path :: pystr
  dl_size :: int
  dl_resumable :: bool

record plan =
  already_have :: nat
  incomplete :: nat
  downloads :: "download list"

definition join_path :: "pystr \<Rightarrow> pystr \<Rightarrow> pystr" where
  "join_path dir filename = dir @ str ''/'' @ filename"

text \<open>\<^verbatim>\<open>int(enclosure.get('length', 0))\<close>.\<close>

definition declared_size :: "enclosure \<Rightarrow> int option" where
  "declared_size enc = (case enc_length enc of None \<Rightarrow> Some 0 | Some s \<Rightarrow> py_int s)"

text \<open>
  The body of the loop of lines 371-412 for one item.  \<^verbatim>\<open>continue\<close> returns the state
  as it is; an exception leaves it as it was before the item.
\<close>

definition plan_item ::
  "pystr \<Rightarrow> pystr \<Rightarrow> item \<Rightarrow> (pystr \<rightharpoonup> bytes) \<times> plan \<Rightarrow> exn + (pystr \<rightharpoonup> bytes) \<times> plan" where
  "plan_item releases_dir file_extension it st =
     (case st of (fs, p) \<Rightarrow>
      (case title_tag it of
         None \<Rightarrow> Inr st
       | Some title_text \<Rightarrow>
      (case enclosure_tag it of
         None \<Rightarrow> Inr st
       | Some enc \<Rightarrow>
      (let title = py_strip title_text in
       case declared_size enc of
         None \<Rightarrow> Inl ValueError
       | Some declared \<Rightarrow>
      (case enc_url enc of
         None \<Rightarrow> Inr st
       | Some u \<Rightarrow>
           if u = [] then Inr st
           else
      (case sanitize_filename title file_extension 240 of
         Inl e \<Rightarrow> Inl e
       | Inr filename \<Rightarrow>
      (let output_path = join_path releases_dir filename;
           queued = \<lparr>dl_title = title, dl_url = u, dl_filename = filename,
                     dl_output_path = output_path, dl_size = declared,
                     dl_resumable = (fs (part_of output_path) \<noteq> None)\<rparr>
       in case fs output_path of
            None \<Rightarrow> Inr (fs, p\<lparr>downloads := downloads p @ [queued]\<rparr>)
          | Some content \<Rightarrow>
              if declared > 0 \<and> 100 * int (length content) < 99 * declared
              then Inr (fs(output_path := None),
                        p\<lparr>incomplete := incomplete p + 1,
                          downloads := downloads p @ [queued]\<rparr>)
              else Inr (fs, p\<lparr>already_have := already_have p + 1\<rparr>))))))))"

fun plan_items ::
  "pystr \<Rightarrow> pystr \<Rightarrow> item list \<Rightarrow> (pystr \<rightharpoonup> bytes) \<times> plan \<Rightarrow>
     exn option \<times> (pystr \<rightharpoonup> bytes) \<times> plan" where
  "plan_items releases_dir file_extension [] st = (None, st)"
| "plan_items releases_dir file_extension (it # rest) st =
     (case plan_item releases_dir file_extension it st of
        Inl e \<Rightarrow> (Some e, st)
      | Inr st' \<Rightarrow> plan_items releases_dir file_extension rest st')"

text \<open>Lines 432-436: the queued items go to the transfer one after the other.\<close>

fun download_all :: "server \<Rightarrow> download list \<Rightarrow> nat \<Rightarrow> world \<Rightarrow> nat \<times> world" where
  "download_all srv [] downloaded w = (downloaded, w)"
| "download_all srv (dl # rest) downloaded w =
     (case download_file srv (dl_url dl) (dl_output_path dl) (dl_size dl) 3 w of
        (ok, w') \<Rightarrow> download_all srv rest (if ok then downloaded + 1 else downloaded) w')"

text \<open>
  \<^verbatim>\<open>download_releases\<close>.  The feed is what fetching and parsing it gave: the items, or
  an exception.  Any exception ends the call with the count so far, which is zero
  before the transfers start.
\<close>

definition download_releases ::
  "server \<Rightarrow> exn + item list \<Rightarrow> pystr \<Rightarrow> pystr \<Rightarrow> world \<Rightarrow> nat \<times> world" where
  "download_releases srv feed releases_dir file_extension w =
     (case feed of
        Inl e \<Rightarrow> (0, w)
      | Inr items \<Rightarrow>
          if items = [] then (0, w)
          else (case plan_items releases_dir file_extension items
                       (files w, \<lparr>already_have = 0, incomplete = 0, downloads = []\<rparr>) of
                  (Some e, fs, p) \<Rightarrow> (0, w\<lparr>files := fs\<rparr>)
                | (None, fs, p) \<Rightarrow>
                    if downloads p = [] then (0, w\<lparr>files := fs\<rparr>)
                    else download_all srv (downloads p) 0 (w\<lparr>files := fs\<rparr>)))"





section \<open>Properties of the transfer\<close>

lemma part_of_neq [simp]: "part_of p \<noteq> p" "p \<noteq> part_of p"
  by (auto simp: part_of_def str_def)



lemma fetch_part_present:
  "fetch srv url part_path w = (Inr total_size, w') \<Longrightarrow> \<exists>b. files w' part_path = Some b"
  by (auto simp: fetch_def stream_def Let_def
      split: prod.splits reply.splits sum.splits if_splits)




lemmas run_transfer =
  download_file_def upt_conv_Cons attempt_once_def fetch_def probe_def Let_def
  interpret_response_def content_length_int_def content_range_str_def py_int_def
  py_strip_def str_def py_isspace_def py_isdigit_def after_last_def stream_def size_ok_def
  part_of_def range_header_def str_of_nat.simps









text \<open>
  Claim C10.  A call with \<^verbatim>\<open>expected_size = 0\<close> whose first request is answered without
  a \<^verbatim>\<open>content-length\<close> header and without a total in \<^verbatim>\<open>Content-Range\<close>, with a
  status that does not raise and a stream that completes, passes size verification
  whatever was streamed (also nothing at all): the \<^verbatim>\<open>.part\<close> file becomes the output
  file and the call returns \<open>True\<close>.
\<close>

theorem download_file_unknown_size:
  assumes reply: "srv url (length (requests w))
      (fst (snd (probe (files w) (part_of output_path)))) = Reply r"
    and no_length: "content_length r = None"
    and no_total: "0x2F \<notin> set (content_range_str r)"
    and complete: "\<not> stream_error r"
    and status: "\<not> (400 \<le> status_code r \<and> status_code r < 600)"
    and retries: "0 < max_retries"
  shows "\<exists>w1 b. snd (fetch srv url (part_of output_path) w) = w1 \<and>
      files w1 (part_of output_path) = Some b \<and>
      download_file srv url output_path 0 max_retries w =
        (True, w1\<lparr>files := (files w1)(part_of output_path := None, output_path \<mapsto> b)\<rparr>)"
proof -
  obtain resume_pos hdr m where pr: "probe (files w) (part_of output_path) = (resume_pos, hdr, m)"
    by (cases "probe (files w) (part_of output_path)")
  have rp: "files w (part_of output_path) = None \<Longrightarrow> resume_pos = 0"
    "\<And>old. files w (part_of output_path) = Some old \<Longrightarrow> resume_pos = length old \<and> m = AB"
    using pr by (auto simp: probe_def)
  have "\<exists>total_size rp' m'. interpret_response resume_pos m r = Inr (total_size, rp', m') \<and>
      (total_size = 0 \<or> (total_size = int resume_pos \<and> rp' = resume_pos \<and> m' = m))"
    using no_length no_total status
    by (auto simp: interpret_response_def content_length_int_def)
  then obtain total_size rp' m'
    where int: "interpret_response resume_pos m r = Inr (total_size, rp', m')"
      and tot: "total_size = 0 \<or> (total_size = int resume_pos \<and> rp' = resume_pos \<and> m' = m)"
    by blast
  define w1 where "w1 = snd (fetch srv url (part_of output_path) w)"
  have f: "fetch srv url (part_of output_path) w = (Inr total_size, w1)"
    using reply pr int complete by (simp add: fetch_def w1_def Let_def)
  from fetch_part_present [OF f]
  obtain b where b: "files w1 (part_of output_path) = Some b"
    by blast
  have len: "total_size \<le> int (length b)"
  proof (cases "files w (part_of output_path)")
    case None
    with rp tot show ?thesis by auto
  next
    case (Some old)
    with rp tot pr reply int complete b show ?thesis
      by (auto simp: fetch_def w1_def Let_def stream_def)
  qed
  have "attempt_once srv url output_path 0 w =
      (Downloaded, w1\<lparr>files := (files w1)(part_of output_path := None, output_path \<mapsto> b)\<rparr>)"
    using f b len by (auto simp: attempt_once_def size_ok_def Let_def)
  moreover from retries have "[0..<nat max_retries] = 0 # [1..<nat max_retries]"
    by (simp add: upt_conv_Cons)
  ultimately show ?thesis
    using b by (simp add: download_file_def w1_def)
qed

theorem download_file_unknown_size_witness:
  "content_length silent_response = None \<and> chunks silent_response = [] \<and>
   fst (download_file (\<lambda>url n hdr. Reply silent_response) (str ''u'') (str ''talk.mp4'') 0 3
     empty_world) = True \<and>
   files (snd (download_file (\<lambda>url n hdr. Reply silent_response) (str ''u'') (str ''talk.mp4'')
     0 3 empty_world)) (str ''talk.mp4'') = Some [] \<and>
   files (snd (download_file (\<lambda>url n hdr. Reply silent_response) (str ''u'') (str ''talk.mp4'')
     0 3 empty_world)) (part_of (str ''talk.mp4'')) = None"
proof -
  have w1: "files (snd (fetch (\<lambda>url n hdr. Reply silent_response) (str ''u'')
      (part_of (str ''talk.mp4'')) empty_world)) = [part_of (str ''talk.mp4'') \<mapsto> []]"
    by (simp add: fetch_def probe_def empty_world_def silent_response_def interpret_response_def
        content_length_int_def content_range_str_def stream_def Let_def)
  show ?thesis
    using download_file_unknown_size [of "\<lambda>url n hdr. Reply silent_response" "str ''u''"
        empty_world "str ''talk.mp4''" silent_response 3] w1
    by (auto simp: silent_response_def content_range_str_def)
qed

section \<open>Properties of the sanitizer\<close>

lemma and_192: "(b::nat) AND 192 = 64 * ((b div 64) mod 4)"
proof -
  have c: "(192::nat) = push_bit 6 (mask 2)"
    by (simp add: mask_eq_exp_minus_1 push_bit_eq_mult)
  have "b AND push_bit 6 (mask 2) = push_bit 6 (drop_bit 6 b) AND push_bit 6 (mask 2)"
    by (rule bit_eqI) (auto simp: bit_simps)
  also have "\<dots> = push_bit 6 (take_bit 2 (drop_bit 6 b))"
    by (simp add: take_bit_eq_mask del: push_bit_and flip: push_bit_and)
  also have "\<dots> = 64 * ((b div 64) mod 4)"
    by (simp add: push_bit_eq_mult drop_bit_eq_div take_bit_eq_mod)
  finally show ?thesis
    unfolding c .
qed

lemma is_cont_iff:
  assumes "b < 256"
  shows "is_cont b \<longleftrightarrow> 0x80 \<le> b \<and> b < 0xC0"
proof -
  from assms have "b div 64 < 4"
    by (simp add: div_less_iff_less_mult)
  then have m: "(b div 64) mod 4 = b div 64"
    by simp
  have "(b div 64 = 2) = (128 \<le> b \<and> b < 192)"
    by linarith
  then show ?thesis
    by (simp add: is_cont_def and_192 m)
qed

lemma is_cont_low: "b < 0x80 \<Longrightarrow> \<not> is_cont b"
  by (simp add: is_cont_iff)

lemma is_cont_tail: "x < 64 \<Longrightarrow> is_cont (0x80 + x)"
  by (simp add: is_cont_iff)

lemma is_cont_lead: "x < 64 \<Longrightarrow> \<not> is_cont (0xC0 + x)"
  by (simp add: is_cont_iff)

lemma split_64a:
  fixes c :: nat
  shows "c div 4096 = c div 64 div 64" "c div 262144 = c div 64 div 64 div 64"
  by (simp_all add: div_mult2_eq)

lemma split_64b:
  fixes c :: nat
  shows "c div 4096 mod 64 = c div 64 div 64 mod 64"
proof -
  have "c div 4096 = c div 64 div 64"
    by (simp add: div_mult2_eq)
  then show ?thesis
    by (rule arg_cong)
qed

lemmas split_64 = split_64a split_64b

lemma decode2:
  assumes "0x80 \<le> c" "c < 0x800"
  shows "utf8_decode_ignore ([0xC0 + c div 64, 0x80 + c mod 64] @ rest) = c # utf8_decode_ignore rest"
proof -
  have a: "2 \<le> c div 64" "c div 64 < 32" using assms by linarith+
  have b: "c mod 64 < 64" by simp
  have v: "c div 64 * 64 + c mod 64 = c" by simp
  show ?thesis using a v by (simp add: is_cont_tail [OF b])
qed

lemma decode3:
  assumes "0x800 \<le> c" "c < 0x10000" "\<not> (0xD800 \<le> c \<and> c \<le> 0xDFFF)"
  shows "utf8_decode_ignore ([0xE0 + c div 4096, 0x80 + c div 64 mod 64, 0x80 + c mod 64] @ rest) =
    c # utf8_decode_ignore rest"
proof -
  define q where "q = c div 64"
  define a where "a = q div 64"
  define b where "b = q mod 64"
  define d where "d = c mod 64"
  have c: "c = 64 * q + d" and q: "q = 64 * a + b" and lt: "b < 64" "d < 64"
    by (simp_all add: q_def a_def b_def d_def)
  have a: "a < 16" using assms c q lt by linarith
  have e0: "a = 0 \<Longrightarrow> 32 \<le> b" using assms c q lt by linarith
  have ed: "a = 13 \<Longrightarrow> b \<le> 31" using assms c q lt by linarith
  have v: "a * 4096 + b * 64 + d = c" using c q by linarith
  have "utf8_decode_ignore ([0xE0 + a, 0x80 + b, 0x80 + d] @ rest) = c # utf8_decode_ignore rest"
    using a v e0 ed by (simp add: is_cont_tail lt)
  then show ?thesis
    by (simp add: split_64 q_def a_def b_def d_def)
qed

lemma decode4:
  assumes "0x10000 \<le> c" "c < 0x110000"
  shows "utf8_decode_ignore ([0xF0 + c div 262144, 0x80 + c div 4096 mod 64, 0x80 + c div 64 mod 64,
      0x80 + c mod 64] @ rest) = c # utf8_decode_ignore rest"
proof -
  define q where "q = c div 64"
  define p where "p = q div 64"
  define a where "a = p div 64"
  define b where "b = p mod 64"
  define e where "e = q mod 64"
  define d where "d = c mod 64"
  have c: "c = 64 * q + d" and q: "q = 64 * p + e" and p: "p = 64 * a + b"
    and lt: "b < 64" "e < 64" "d < 64"
    by (simp_all add: q_def p_def a_def b_def d_def e_def)
  have a: "a \<le> 4" using assms c q p lt by linarith
  have f0: "a = 0 \<Longrightarrow> 16 \<le> b" using assms c q p lt by linarith
  have f4: "a = 4 \<Longrightarrow> b \<le> 15" using assms c q p lt by linarith
  have v: "a * 262144 + b * 4096 + e * 64 + d = c" using c q p by linarith
  have "utf8_decode_ignore ([0xF0 + a, 0x80 + b, 0x80 + e, 0x80 + d] @ rest) =
      c # utf8_decode_ignore rest"
    using a v f0 f4 by (simp add: is_cont_tail lt)
  then show ?thesis
    by (simp add: split_64 q_def p_def a_def b_def d_def e_def)
qed

lemma utf8_char_cases:
  assumes "utf8_char c = Some cb"
  obtains (one) "c < 0x80" "cb = [c]"
    | (two) "0x80 \<le> c" "c < 0x800" "cb = [0xC0 + c div 64, 0x80 + c mod 64]"
    | (three) "0x800 \<le> c" "c < 0x10000" "\<not> (0xD800 \<le> c \<and> c \<le> 0xDFFF)"
        "cb = [0xE0 + c div 4096, 0x80 + c div 64 mod 64, 0x80 + c mod 64]"
    | (four) "0x10000 \<le> c" "c < 0x110000"
        "cb = [0xF0 + c div 262144, 0x80 + c div 4096 mod 64, 0x80 + c div 64 mod 64,
               0x80 + c mod 64]"
proof (cases "c < 0x80")
  case True
  with assms have "cb = [c]" by (simp add: utf8_char_def)
  with True show ?thesis by (rule one)
next
  case a: False
  show ?thesis
  proof (cases "c < 0x800")
    case True
    with a assms have "cb = [0xC0 + c div 64, 0x80 + c mod 64]" by (simp add: utf8_char_def)
    with a True show ?thesis by (intro two) simp_all
  next
    case b: False
    show ?thesis
    proof (cases "0xD800 \<le> c \<and> c \<le> 0xDFFF")
      case True
      with a b assms show ?thesis by (simp add: utf8_char_def)
    next
      case s: False
      show ?thesis
      proof (cases "c < 0x10000")
        case True
        with a b s assms
        have "cb = [0xE0 + c div 4096, 0x80 + c div 64 mod 64, 0x80 + c mod 64]"
          by (auto simp: utf8_char_def)
        with b s True show ?thesis by (intro three) simp_all
      next
        case d: False
        show ?thesis
        proof (cases "c < 0x110000")
          case True
          with a b s d assms
          have "cb = [0xF0 + c div 262144, 0x80 + c div 4096 mod 64, 0x80 + c div 64 mod 64,
               0x80 + c mod 64]"
            by (auto simp: utf8_char_def)
          with d True show ?thesis by (intro four) simp_all
        next
          case False
          with a b s d assms show ?thesis by (auto simp: utf8_char_def)
        qed
      qed
    qed
  qed
qed

lemma utf8_char_decode:
  assumes "utf8_char c = Some cb"
  shows "utf8_decode_ignore (cb @ rest) = c # utf8_decode_ignore rest"
  using assms
proof (cases rule: utf8_char_cases)
  case one
  then show ?thesis by simp
next
  case two
  then show ?thesis using decode2 [of c rest] by simp
next
  case three
  then show ?thesis using decode3 [of c rest] by simp
next
  case four
  then show ?thesis using decode4 [of c rest] by simp
qed

lemma utf8_encode_decode:
  "utf8_encode cs = Some bs \<Longrightarrow> utf8_decode_ignore (bs @ rest) = cs @ utf8_decode_ignore rest"
  by (induction cs arbitrary: bs) (auto simp: utf8_char_decode split: option.splits)

lemma utf8_encode_take:
  "utf8_encode cs = Some bs \<Longrightarrow> \<exists>pb. utf8_encode (take n cs) = Some pb"
proof (induction cs arbitrary: bs n)
  case Nil
  then show ?case by simp
next
  case (Cons c cs)
  then show ?case by (cases n) (auto split: option.splits)
qed

lemma utf8_encode_append:
  "utf8_encode xs = Some a \<Longrightarrow> utf8_encode ys = Some b \<Longrightarrow> utf8_encode (xs @ ys) = Some (a @ b)"
  by (induction xs arbitrary: a) (auto split: option.splits)

lemma strip_cont_rev: "strip_cont t = rev (dropWhile is_cont (rev t))"
proof (induction t rule: rev_induct)
  case Nil
  then show ?case by (simp add: strip_cont.simps)
next
  case (snoc x xs)
  then show ?case by (subst strip_cont.simps) simp
qed

lemma strip_cont_append:
  "strip_cont (xs @ ys) = (if strip_cont ys = [] then strip_cont xs else xs @ strip_cont ys)"
  by (auto simp: strip_cont_rev dropWhile_append)

lemma utf8_char_shape:
  assumes "utf8_char c = Some cb"
  shows "\<exists>h t. cb = h # t \<and> \<not> is_cont h \<and> (\<forall>b \<in> set t. is_cont b) \<and>
    (t = [] \<longrightarrow> cb = [c] \<and> c < 0x80) \<and> (t \<noteq> [] \<longrightarrow> 0x80 \<le> h)"
proof -
  have m: "is_cont (0x80 + x mod 64)" for x :: nat
    by (rule is_cont_tail) simp
  from assms show ?thesis
  proof (cases rule: utf8_char_cases)
    case one
    then show ?thesis by (simp add: is_cont_low)
  next
    case two
    then have "c div 64 < 64" by linarith
    then have "\<not> is_cont (0xC0 + c div 64)" by (rule is_cont_lead)
    with two m show ?thesis by simp
  next
    case three
    then have "32 + c div 4096 < 64" by linarith
    then have "\<not> is_cont (0xC0 + (32 + c div 4096))" by (rule is_cont_lead)
    then have "\<not> is_cont (0xE0 + c div 4096)" by simp
    with three m show ?thesis by simp
  next
    case four
    then have "48 + c div 262144 < 64" by linarith
    then have "\<not> is_cont (0xC0 + (48 + c div 262144))" by (rule is_cont_lead)
    then have "\<not> is_cont (0xF0 + c div 262144)" by simp
    with four m show ?thesis by simp
  qed
qed

lemma strip_cont_char:
  assumes "utf8_char c = Some cb" "0 < k"
  shows "strip_cont (take k cb) = [hd cb] \<and>
    (cb = [c] \<and> c < 0x80 \<or> 0x80 \<le> hd cb \<and> 1 < length cb)"
proof -
  from utf8_char_shape [OF assms(1)] obtain h t where
    s: "cb = h # t" "\<not> is_cont h" "\<forall>b \<in> set t. is_cont b"
      "t = [] \<longrightarrow> cb = [c] \<and> c < 0x80" "t \<noteq> [] \<longrightarrow> 0x80 \<le> h"
    by blast
  from assms(2) obtain j where k: "k = Suc j" by (cases k) auto
  have "\<forall>b \<in> set (take j t). is_cont b"
    using s(3) by (meson in_set_takeD)
  then have "strip_cont (h # take j t) = [h]"
    using s(2) by (simp add: strip_cont_rev dropWhile_append)
  then show ?thesis
    using s k by (cases "t = []") auto
qed

lemma decode_lone: "0x80 \<le> h \<Longrightarrow> utf8_decode_ignore [h] = []"
  by simp

lemma cut_at_head:
  assumes c: "utf8_char c = Some cb" and t: "t = [hd cb]"
    and s: "cb = [c] \<and> c < 0x80 \<or> 0x80 \<le> hd cb \<and> 1 < length cb" and k: "0 < k"
  shows "cut_at (c # cs) k t"
proof (cases "cb = [c] \<and> c < 0x80")
  case True
  with c t k have "utf8_encode (take 1 (c # cs)) = Some [c] \<and> length [c] \<le> k \<and> t = [c]"
    by simp
  then show ?thesis unfolding cut_at_def by blast
next
  case False
  with s t have "utf8_encode (take 0 (c # cs)) = Some [] \<and> length ([]::bytes) \<le> k \<and>
      0x80 \<le> hd cb \<and> t = [] @ [hd cb]"
    by simp
  then show ?thesis unfolding cut_at_def by blast
qed

lemma cut_at_cons:
  assumes c: "utf8_char c = Some cb" and r: "cut_at cs k' t'"
  shows "cut_at (c # cs) (length cb + k') (cb @ t')"
proof -
  from r obtain n pb where
    n: "utf8_encode (take n cs) = Some pb" "length pb \<le> k'"
      "t' = pb \<or> (\<exists>h. 0x80 \<le> h \<and> t' = pb @ [h])"
    unfolding cut_at_def by blast
  from c n have "utf8_encode (take (Suc n) (c # cs)) = Some (cb @ pb) \<and>
      length (cb @ pb) \<le> length cb + k' \<and>
      (cb @ t' = cb @ pb \<or> (\<exists>h. 0x80 \<le> h \<and> cb @ t' = (cb @ pb) @ [h]))"
    by auto
  then show ?thesis unfolding cut_at_def by blast
qed

lemma cut_at_nil: "cut_at cs k []"
proof -
  have "utf8_encode (take 0 cs) = Some [] \<and> length ([]::bytes) \<le> k \<and> ([]::bytes) = []"
    by simp
  then show ?thesis unfolding cut_at_def by blast
qed

lemma strip_cont_nil [simp]: "strip_cont [] = []"
  by (simp add: strip_cont.simps)

lemma truncate_cut:
  "utf8_encode cs = Some bs \<Longrightarrow> cut_at cs k (strip_cont (take k bs))"
proof (induction cs arbitrary: bs k)
  case Nil
  then show ?case by (simp add: cut_at_nil)
next
  case (Cons c cs)
  from Cons.prems obtain cb bs' where
    c: "utf8_char c = Some cb" and e: "utf8_encode cs = Some bs'" and bs: "bs = cb @ bs'"
    by (auto split: option.splits)
  from utf8_char_shape [OF c] have ne: "0 < length cb" by auto
  show ?case
  proof (cases "k = 0")
    case True
    then show ?thesis by (simp add: cut_at_nil)
  next
    case k: False
    show ?thesis
    proof (cases "k \<le> length cb")
      case True
      then have "take k bs = take k cb" by (simp add: bs)
      moreover from strip_cont_char [OF c, of k] k
      have "strip_cont (take k cb) = [hd cb]"
        "cb = [c] \<and> c < 0x80 \<or> 0x80 \<le> hd cb \<and> 1 < length cb"
        by auto
      ultimately show ?thesis
        using cut_at_head [OF c _ _ , of _ k cs] k by simp
    next
      case False
      define k' where "k' = k - length cb"
      have kk: "k = length cb + k'" using False by (simp add: k'_def)
      have t: "take k bs = cb @ take k' bs'" by (simp add: bs kk)
      note ih = Cons.IH [OF e, of k']
      show ?thesis
      proof (cases "strip_cont (take k' bs') = []")
        case True
        from strip_cont_char [OF c ne]
        have "strip_cont cb = [hd cb]"
          "cb = [c] \<and> c < 0x80 \<or> 0x80 \<le> hd cb \<and> 1 < length cb"
          by auto
        then show ?thesis
          using cut_at_head [OF c _ _ , of _ k cs] k True by (simp add: t strip_cont_append)
      next
        case False
        then have "strip_cont (take k bs) = cb @ strip_cont (take k' bs')"
          by (simp add: t strip_cont_append)
        moreover have "cut_at (c # cs) k (cb @ strip_cont (take k' bs'))"
          unfolding kk by (rule cut_at_cons [OF c ih])
        ultimately show ?thesis
          by simp
      qed
    qed
  qed
qed

lemma cut_at_decode:
  assumes "cut_at cs k t"
  shows "\<exists>n pb. utf8_encode (take n cs) = Some pb \<and> length pb \<le> k \<and>
    utf8_decode_ignore t = take n cs"
proof -
  from assms obtain n pb where
    n: "utf8_encode (take n cs) = Some pb" "length pb \<le> k"
      "t = pb \<or> (\<exists>h. 0x80 \<le> h \<and> t = pb @ [h])"
    unfolding cut_at_def by blast
  have "utf8_decode_ignore t = take n cs"
    using n(3) utf8_encode_decode [OF n(1), of "[]"] utf8_encode_decode [OF n(1)] decode_lone
    by auto
  with n show ?thesis by blast
qed

lemma utf8_char_replace:
  "utf8_char c = Some cb \<Longrightarrow>
     \<exists>rb. utf8_char (if c \<in> set invalid_chars then 0x5F else c) = Some rb \<and> length rb = length cb"
  by (auto simp: utf8_char_def invalid_chars_def split: if_splits)

lemma utf8_encode_replace:
  "utf8_encode title = Some tb \<Longrightarrow>
     \<exists>fb. utf8_encode (replace_invalid title) = Some fb \<and> length fb = length tb"
proof (induction title arbitrary: tb)
  case Nil
  then show ?case by (simp add: replace_invalid_def)
next
  case (Cons c cs)
  from Cons.prems obtain cb bs where
    c: "utf8_char c = Some cb" and e: "utf8_encode cs = Some bs" and tb: "tb = cb @ bs"
    by (auto split: option.splits)
  from utf8_char_replace [OF c] Cons.IH [OF e] show ?case
    unfolding replace_invalid_def tb by (auto simp del: set_simps)
qed

lemma utf8_encode_dots: "utf8_encode (str ''...'') = Some [0x2E, 0x2E, 0x2E]"
  by (simp add: str_def utf8_char_def)

lemma utf8_encode_ascii: "\<forall>c \<in> set s. c < 0x80 \<Longrightarrow> utf8_encode s = Some s"
  by (induction s) (simp_all add: utf8_char_def)

lemma utf8_decode_ascii: "\<forall>c \<in> set s. c < 0x80 \<Longrightarrow> utf8_decode_ignore s = s"
  by (induction s) simp_all

lemma utf8_encode_e9:
  "utf8_encode (replicate n 0xE9) = Some (concat (replicate n [0xC3, 0xA9]))"
  by (induction n) (simp_all add: utf8_char_def)

lemma long_extension_ascii: "\<forall>c \<in> set long_extension. c < 0x80"
  by (simp add: long_extension_def)

lemma length_long_extension: "length long_extension = 238"
  by (simp add: long_extension_def)

text \<open>
  Claim C4.  The specification lists nine characters, the backslash among them.  The
  pattern of line 125 matches eight: a title with a backslash keeps it.  The theorem
  runs the sanitizer on the title \<^verbatim>\<open>a\b\<close> (code points 0x61, 0x5C, 0x62).
\<close>

theorem sanitize_filename_backslash:
  "0x5C \<in> set listed_chars \<and>
   sanitize_filename [0x61, 0x5C, 0x62] (str ''.mp4'') 240 =
     Inr [0x61, 0x5C, 0x62, 0x2E, 0x6D, 0x70, 0x34]"
  by (simp add: listed_chars_def sanitize_filename_def replace_invalid_def invalid_chars_def
      str_def utf8_char_def)

text \<open>
  Claim C5, as stated, fails at the edge of the budget: with \<^verbatim>\<open>max_bytes = 240\<close> and an
  extension of 238 bytes two bytes remain for the name, the slice bound
  \<^verbatim>\<open>available_bytes - 3\<close> is \<open>-1\<close> and counts from the end, and the title
  \<^verbatim>\<open>abcdefgh\<close> gives a name of 248 bytes.
\<close>

theorem sanitize_filename_bound_counterexample:
  "map_option length (utf8_encode long_extension) = Some 238 \<and>
   (0::int) < 240 - 238 \<and>
   map_sum id (map_option length \<circ> utf8_encode)
     (sanitize_filename (str ''abcdefgh'') long_extension 240) = Inr (Some 248)"
proof -
  have e: "utf8_encode long_extension = Some long_extension"
    by (rule utf8_encode_ascii [OF long_extension_ascii])
  have t: "utf8_encode (replace_invalid (str ''abcdefgh'')) = Some (str ''abcdefgh'')"
    by (simp add: replace_invalid_def invalid_chars_def str_def utf8_char_def)
  have s: "strip_cont (slice_to (str ''abcdefgh'') (- 1)) = str ''abcdefg''"
    by (simp add: slice_to_def str_def strip_cont_rev is_cont_low)
  have d: "utf8_decode_ignore (str ''abcdefg'') = str ''abcdefg''"
    by (simp add: str_def)
  have r: "sanitize_filename (str ''abcdefgh'') long_extension 240 =
      Inr (str ''abcdefg...'' @ long_extension)"
    by (simp add: sanitize_filename_def e t s d length_long_extension Let_def)
      (simp add: str_def)
  have "utf8_encode (str ''abcdefg...'' @ long_extension) =
      Some (str ''abcdefg...'' @ long_extension)"
    using long_extension_ascii by (intro utf8_encode_ascii) (auto simp: str_def)
  then show ?thesis
    by (simp add: r e length_long_extension) (simp add: str_def)
qed

text \<open>
  Claim C5, amended.  For every title and extension that can be encoded and every
  \<^verbatim>\<open>max_bytes\<close> that leaves at least three bytes beside the extension, the result ends
  with the extension and its UTF-8 length is at most \<^verbatim>\<open>max_bytes\<close>.  A title that
  fits is kept whole (with the invalid characters replaced); a longer one is cut to some
  of its leading characters, so at a character boundary, whose encoding has at most
  \<^verbatim>\<open>max_bytes - len(extension) - 3\<close> bytes, followed by \<^verbatim>\<open>...\<close>.
\<close>

theorem sanitize_filename_bound:
  assumes t: "utf8_encode title = Some tb" and e: "utf8_encode extension = Some eb"
    and room: "int (length eb) + 3 \<le> max_bytes"
  shows "\<exists>name nb. sanitize_filename title extension max_bytes = Inr (name @ extension) \<and>
      utf8_encode (name @ extension) = Some nb \<and> int (length nb) \<le> max_bytes \<and>
      (if int (length tb) \<le> max_bytes - int (length eb) then name = replace_invalid title
       else \<exists>n kb. name = take n (replace_invalid title) @ str ''...'' \<and>
              utf8_encode (take n (replace_invalid title)) = Some kb \<and>
              int (length kb) \<le> max_bytes - int (length eb) - 3)"
proof -
  from utf8_encode_replace [OF t] obtain fb where
    f: "utf8_encode (replace_invalid title) = Some fb" and len: "length fb = length tb"
    by blast
  show ?thesis
  proof (cases "int (length tb) \<le> max_bytes - int (length eb)")
    case True
    have "sanitize_filename title extension max_bytes = Inr (replace_invalid title @ extension)"
      using True e f len by (simp add: sanitize_filename_def)
    moreover have "utf8_encode (replace_invalid title @ extension) = Some (fb @ eb)"
      by (rule utf8_encode_append [OF f e])
    moreover have "int (length (fb @ eb)) \<le> max_bytes"
      using True len by simp
    ultimately show ?thesis
      using True by auto
  next
    case False
    define k where "k = nat (max_bytes - int (length eb) - 3)"
    have k: "int k = max_bytes - int (length eb) - 3"
      using room by (simp add: k_def)
    have sl: "slice_to fb (max_bytes - int (length eb) - 3) = take k fb"
      using room by (simp add: slice_to_def k_def)
    from cut_at_decode [OF truncate_cut [OF f, of k]] obtain n kb where
      n: "utf8_encode (take n (replace_invalid title)) = Some kb" "length kb \<le> k"
        "utf8_decode_ignore (strip_cont (take k fb)) = take n (replace_invalid title)"
      by blast
    have "sanitize_filename title extension max_bytes =
        Inr ((take n (replace_invalid title) @ str ''...'') @ extension)"
      using False e f len sl n(3) by (simp add: sanitize_filename_def Let_def)
    moreover have "utf8_encode ((take n (replace_invalid title) @ str ''...'') @ extension) =
        Some ((kb @ [0x2E, 0x2E, 0x2E]) @ eb)"
      by (intro utf8_encode_append n(1) utf8_encode_dots e)
    moreover have "int (length ((kb @ [0x2E, 0x2E, 0x2E]) @ eb)) \<le> max_bytes"
      using n(2) k by simp
    moreover have "\<exists>m kb'. take n (replace_invalid title) @ str ''...'' =
          take m (replace_invalid title) @ str ''...'' \<and>
        utf8_encode (take m (replace_invalid title)) = Some kb' \<and>
        int (length kb') \<le> max_bytes - int (length eb) - 3"
      using n(1) n(2) k by (intro exI [of _ n] exI [of _ kb]) simp
    ultimately show ?thesis
      using False
      by (intro exI [of _ "take n (replace_invalid title) @ str ''...''"]
          exI [of _ "(kb @ [0x2E, 0x2E, 0x2E]) @ eb"]) (simp only: if_False simp_thms)
  qed
qed

theorem sanitize_filename_bound_witness:
  "utf8_encode (str ''.mp4'') = Some [0x2E, 0x6D, 0x70, 0x34] \<and> (4::int) + 3 \<le> 240 \<and>
   sanitize_filename (str ''Opening: Event'') (str ''.mp4'') 240 =
     Inr (str ''Opening_ Event.mp4'') \<and>
   (\<exists>name nb. sanitize_filename (replicate 200 0xE9) (str ''.mp4'') 240 =
        Inr (name @ str ''.mp4'') \<and>
      utf8_encode (name @ str ''.mp4'') = Some nb \<and> int (length nb) \<le> 240)"
proof -
  have e: "utf8_encode (str ''.mp4'') = Some [0x2E, 0x6D, 0x70, 0x34]"
    by (simp add: str_def utf8_char_def)
  have t: "utf8_encode (str ''Opening: Event'') = Some (str ''Opening: Event'')"
    by (simp add: str_def utf8_char_def)
  have r: "replace_invalid (str ''Opening: Event'') = str ''Opening_ Event''"
    by (simp add: replace_invalid_def invalid_chars_def str_def)
  have long: "utf8_encode (replicate 200 0xE9) = Some (concat (replicate 200 [0xC3, 0xA9]))"
    by (rule utf8_encode_e9)
  have room: "int (length [0x2E, 0x6D, 0x70, 0x34 :: nat]) + 3 \<le> 240"
    by simp
  have "sanitize_filename (str ''Opening: Event'') (str ''.mp4'') 240 =
      Inr (str ''Opening_ Event.mp4'')"
    using sanitize_filename_bound [OF t e room] r by (auto simp: str_def)
  moreover have "\<exists>name nb. sanitize_filename (replicate 200 0xE9) (str ''.mp4'') 240 =
        Inr (name @ str ''.mp4'') \<and>
      utf8_encode (name @ str ''.mp4'') = Some nb \<and> int (length nb) \<le> 240"
    using sanitize_filename_bound [OF long e room] by blast
  ultimately show ?thesis
    using e by simp
qed

section \<open>Properties of the normalizer\<close>

lemma py_split_Nil [simp]: "py_split [] = []"
  by (subst py_split.simps) simp

lemma py_split_space [simp]: "py_isspace c \<Longrightarrow> py_split (c # cs) = py_split cs"
  by (subst py_split.simps, subst (2) py_split.simps) simp

lemma py_split_word [simp]:
  "\<not> py_isspace c \<Longrightarrow>
     py_split (c # cs) =
       (c # takeWhile (\<lambda>x. \<not> py_isspace x) cs) # py_split (dropWhile (\<lambda>x. \<not> py_isspace x) cs)"
  by (subst py_split.simps) simp


section \<open>Properties of the matcher and of the cleanup pass\<close>









section \<open>Properties of the canonical-set reconciliation\<close>







end
